theory Spec2Isabelle
  imports Main "HOL-Library.Sublist"
begin

section \<open>The browser, the clock and the download directory\<close>

text \<open>
  The Python sources drive a Chrome browser through Selenium, read the wall clock and list
  a download directory. None of the three is under the program's control, so the model
  splits the world in two:
  \<^item> an environment \<open>env\<close>, never changed by the program: for every kind of driver call
    an oracle giving the reply to the k-th call of that kind, and the content of the
    download directory as a function of time;
  \<^item> a \<open>state\<close>, threaded through every function: the clock, the files the program
    itself has saved, one call counter per oracle, and the trace of the actions the
    program has performed.
  Since the program is deterministic, the arguments of its k-th call are determined by the
  earlier replies, so an oracle indexed by the call count describes any browser.

  Exceptions are values: a function that may raise returns \<open>exn + 'a\<close>, with \<open>Inl\<close> the
  exception. A function whose loop may run forever returns an \<open>option\<close>, \<open>None\<close> standing
  for a call that does not return.
\<close>

datatype exn =
    TimeoutException
  | UnexpectedAlertPresentException
  | NoAlertPresentException
  | NoSuchWindowException
  | WebDriverException
  | AttributeError
  | UnboundLocalError
  | TypeError
  | RecursionError

type_synonym element = nat
type_synonym path = string

datatype event =
    Sleep int
  | Get string
  | Refresh
  | Dismiss
  | WaitReady int
  | Probe string int
  | ProbeAll string int
  | WaitClickable string int
  | Click string element
  | SendKeys element string
  | SelectValue element string
  | WaitWindows nat int
  | SwitchWindow nat
  | SwitchFrame element
  | GetAttribute string
  | Screenshot path
  | Glob

record env =
  download_dir :: path
  downloads :: "int \<Rightarrow> path list"
  stamp :: "int \<Rightarrow> string"
  stack_room :: nat
  gets :: "nat \<Rightarrow> exn option"
  alerts :: "nat \<Rightarrow> exn option"
  readys :: "nat \<Rightarrow> exn option"
  visibles :: "nat \<Rightarrow> exn + element"
  all_visibles :: "nat \<Rightarrow> exn + element list"
  clickables :: "nat \<Rightarrow> exn + element"
  selects :: "nat \<Rightarrow> exn option"
  windows :: "nat \<Rightarrow> exn + string list"
  refreshes :: "nat \<Rightarrow> exn option"
  classes :: "nat \<Rightarrow> string option"
  shots :: "nat \<Rightarrow> bool"

record state =
  clock :: int
  written :: "path list"
  trace :: "event list"
  n_get :: nat
  n_alert :: nat
  n_ready :: nat
  n_visible :: nat
  n_all :: nat
  n_click :: nat
  n_select :: nat
  n_window :: nat
  n_refresh :: nat
  n_class :: nat
  n_shot :: nat

text \<open>
  \<open>downloads e t\<close> lists the paths that are in the download directory at time \<open>t\<close> and
  that the program did not save itself (earlier artifacts, files the browser is writing).
  \<open>stamp e t\<close> is \<^verbatim>\<open>datetime.now().strftime("%Y-%m-%d_%H%M%S")\<close> at time \<open>t\<close>.
  The clock counts time units as an \<open>int\<close>; it advances in \<^verbatim>\<open>time.sleep\<close> only.
  \<open>stack_room e\<close> is the number of nested activations of \<^verbatim>\<open>_wait_for_page_load\<close> that fit
  under the interpreter's recursion limit (about 1000 frames).
\<close>

definition emit :: "event \<Rightarrow> state \<Rightarrow> state" where
  "emit ev s = s\<lparr>trace := trace s @ [ev]\<rparr>"

definition sleep :: "int \<Rightarrow> state \<Rightarrow> state" where
  "sleep d s = emit (Sleep d) (s\<lparr>clock := clock s + d\<rparr>)"

text \<open>What is in the download directory at time \<open>t\<close>, and \<^verbatim>\<open>self.download_dir.glob("*")\<close>.\<close>

definition listing :: "env \<Rightarrow> state \<Rightarrow> int \<Rightarrow> path list" where
  "listing e s t = written s @ downloads e t"

definition glob :: "env \<Rightarrow> state \<Rightarrow> path list \<times> state" where
  "glob e s = (listing e s (clock s), emit Glob s)"

section \<open>utils/decorators.py\<close>

definition lower_char :: "char \<Rightarrow> char" where
  "lower_char c =
     (let n = (of_char c :: nat) in if 65 \<le> n \<and> n \<le> 90 then char_of (n + 32) else c)"

definition lower :: "string \<Rightarrow> string" where
  "lower p = map lower_char p"

definition endswith :: "string \<Rightarrow> string \<Rightarrow> bool" where
  "endswith p sfx = suffix sfx p"

text \<open>\<^verbatim>\<open>str(f).lower().endswith((".crdownload", ".tmp"))\<close>\<close>

definition is_tmp :: "path \<Rightarrow> bool" where
  "is_tmp f = (endswith (lower f) ''.crdownload'' \<or> endswith (lower f) ''.tmp'')"

record kwargs =
  kw_xpath :: "string option"
  kw_timeout :: "int option"

text \<open>
  The \<^verbatim>\<open>while time.time() < end_time\<close> loop of \<^verbatim>\<open>wrapper\<close>. The sets of the source
  are lists here; only membership and emptiness are used.
\<close>

definition downloaded_files :: "path list \<Rightarrow> path list \<Rightarrow> path list" where
  "downloaded_files initial_files current =
     (let new_files = filter (\<lambda>f. f \<notin> set initial_files) current;
          tmp_files = filter is_tmp new_files
      in filter (\<lambda>f. f \<notin> set tmp_files) new_files)"

function poll_new_file :: "env \<Rightarrow> path list \<Rightarrow> int \<Rightarrow> state \<Rightarrow> bool \<times> state" where
  "poll_new_file e initial_files end_time s =
     (if clock s < end_time then
        (if downloaded_files initial_files (fst (glob e s)) \<noteq> [] then (True, snd (glob e s))
         else poll_new_file e initial_files end_time (sleep 10 (snd (glob e s))))
      else (False, s))"
  by pat_completeness auto
termination
  by (relation "measure (\<lambda>(e, initial_files, end_time, s). nat (end_time - clock s))")
     (auto simp: sleep_def glob_def emit_def)

declare poll_new_file.simps [simp del]

type_synonym 'a prog = "env \<Rightarrow> state \<Rightarrow> ((exn + 'a) \<times> state) option"

text \<open>\<^verbatim>\<open>kwargs.get("timeout", 60 * 60)\<close> and \<^verbatim>\<open>kwargs.get("xpath", "")\<close>\<close>

definition get_timeout :: "kwargs \<Rightarrow> int" where
  "get_timeout kw = (case kw_timeout kw of None \<Rightarrow> 60 * 60 | Some t \<Rightarrow> t)"

definition get_xpath :: "kwargs \<Rightarrow> string" where
  "get_xpath kw = (case kw_xpath kw of None \<Rightarrow> [] | Some x \<Rightarrow> x)"

definition check_new_file :: "(kwargs \<Rightarrow> bool prog) \<Rightarrow> kwargs \<Rightarrow> bool prog" where
  "check_new_file func kw e s =
     (let timeout = get_timeout kw;
          initial_files = fst (glob e s);
          s1 = snd (glob e s);
          end_time = clock s1 + timeout
      in case func kw e s1 of
           None \<Rightarrow> None
         | Some (Inl x, s2) \<Rightarrow> Some (Inl x, s2)
         | Some (Inr download_clicked, s2) \<Rightarrow>
             if \<not> download_clicked then Some (Inr False, s2)
             else Some (Inr (fst (poll_new_file e initial_files end_time s2)),
                        snd (poll_new_file e initial_files end_time s2)))"

section \<open>processors/collection_processor/selenium_scraper.py\<close>

definition TIMEOUT :: int where
  "TIMEOUT = 30"

text \<open>
  \<^verbatim>\<open>find_element\<close> returns the element or the sentinel \<^verbatim>\<open>False\<close> (\<open>None\<close> here); only
  \<^verbatim>\<open>TimeoutException\<close> is caught, any other fault of the wait propagates.
\<close>

definition find_element ::
  "string \<Rightarrow> int \<Rightarrow> bool \<Rightarrow> env \<Rightarrow> state \<Rightarrow> (exn + element option) \<times> state" where
  "find_element xpath timeout lg e s =
     (let s1 = emit (Probe xpath timeout) (s\<lparr>n_visible := n_visible s + 1\<rparr>)
      in case visibles e (n_visible s) of
           Inr el \<Rightarrow> (Inr (Some el), s1)
         | Inl x \<Rightarrow> if x = TimeoutException then (Inr None, s1) else (Inl x, s1))"

definition find_all_elements ::
  "string \<Rightarrow> int \<Rightarrow> env \<Rightarrow> state \<Rightarrow> (exn + element list option) \<times> state" where
  "find_all_elements xpath timeout e s =
     (let s1 = emit (ProbeAll xpath timeout) (s\<lparr>n_all := n_all s + 1\<rparr>)
      in case all_visibles e (n_all s) of
           Inr els \<Rightarrow> (Inr (Some els), s1)
         | Inl x \<Rightarrow> if x = TimeoutException then (Inr None, s1) else (Inl x, s1))"

definition send_key ::
  "string \<Rightarrow> string \<Rightarrow> int \<Rightarrow> env \<Rightarrow> state \<Rightarrow> (exn + bool) \<times> state" where
  "send_key xpath v timeout e s =
     (case find_element xpath timeout True e s of
        (Inl x, s1) \<Rightarrow> (Inl x, s1)
      | (Inr None, s1) \<Rightarrow> (Inr False, s1)
      | (Inr (Some input_element), s1) \<Rightarrow> (Inr True, emit (SendKeys input_element v) s1))"

text \<open>One round of \<^verbatim>\<open>_yes_to_alert\<close>'s try block: \<^verbatim>\<open>switch_to.alert\<close>, then \<^verbatim>\<open>accept()\<close>.\<close>

definition alert_accept :: "env \<Rightarrow> state \<Rightarrow> (exn + unit) \<times> state" where
  "alert_accept e s =
     (case alerts e (n_alert s) of
        None \<Rightarrow> (Inr (), emit Dismiss (s\<lparr>n_alert := n_alert s + 1\<rparr>))
      | Some x \<Rightarrow> (Inl x, s\<lparr>n_alert := n_alert s + 1\<rparr>))"

partial_function (option) yes_to_alert :: "env \<Rightarrow> state \<Rightarrow> ((exn + unit) \<times> state) option" where
  "yes_to_alert e s =
     (case alert_accept e (sleep 3 s) of
        (Inr u, s1) \<Rightarrow> yes_to_alert e s1
      | (Inl x, s1) \<Rightarrow>
          if x = NoAlertPresentException \<or> x = NoSuchWindowException then Some (Inr (), s1)
          else Some (Inl x, s1))"

declare yes_to_alert.simps [code]

text \<open>\<^verbatim>\<open>WebDriverWait(self.driver, timeout).until(readyState == "complete")\<close>\<close>

definition wait_ready :: "int \<Rightarrow> env \<Rightarrow> state \<Rightarrow> (exn + unit) \<times> state" where
  "wait_ready timeout e s =
     (let s1 = emit (WaitReady timeout) (s\<lparr>n_ready := n_ready s + 1\<rparr>)
      in case readys e (n_ready s) of None \<Rightarrow> (Inr (), s1) | Some x \<Rightarrow> (Inl x, s1))"

text \<open>
  \<^verbatim>\<open>_wait_for_page_load\<close> calls itself from its \<^verbatim>\<open>except UnexpectedAlertPresentException\<close>
  block, so every restart is one more frame on the Python stack. \<open>depth\<close> counts the
  activations below the current one; the activation that no longer fits raises
  \<^verbatim>\<open>RecursionError\<close>, which no \<^verbatim>\<open>except\<close> clause of the class catches. Callers enter with
  depth \<open>0\<close>.
\<close>

partial_function (option) wait_for_page_load :: "nat \<Rightarrow> int \<Rightarrow> bool prog" where
  "wait_for_page_load depth timeout e s =
     (if stack_room e \<le> depth then Some (Inl RecursionError, s)
      else
        (case yes_to_alert e s of
           None \<Rightarrow> None
         | Some (Inl x, s1) \<Rightarrow> Some (Inl x, s1)
         | Some (Inr u, s1) \<Rightarrow>
             (case wait_ready timeout e s1 of
                (Inr u, s2) \<Rightarrow> Some (Inr True, s2)
              | (Inl x, s2) \<Rightarrow>
                  if x = TimeoutException then Some (Inr False, s2)
                  else if x = UnexpectedAlertPresentException then
                    (case yes_to_alert e s2 of
                       None \<Rightarrow> None
                     | Some (Inl y, s3) \<Rightarrow> Some (Inl y, s3)
                     | Some (Inr u, s3) \<Rightarrow> wait_for_page_load (Suc depth) timeout e s3)
                  else Some (Inl x, s2))))"

declare wait_for_page_load.simps [code]

text \<open>
  \<^verbatim>\<open>self.driver.get(url)\<close> stands outside any \<^verbatim>\<open>try\<close>: what it raises (a
  \<^verbatim>\<open>TimeoutException\<close> when the page load times out, any other driver fault) leaves
  \<^verbatim>\<open>fetch_page\<close> as an exception.
\<close>

definition fetch_page :: "string \<Rightarrow> int \<Rightarrow> bool prog" where
  "fetch_page url timeout e s =
     (let s1 = emit (Get url) (s\<lparr>n_get := n_get s + 1\<rparr>)
      in case gets e (n_get s) of
           Some x \<Rightarrow> Some (Inl x, s1)
         | None \<Rightarrow> wait_for_page_load 0 timeout e s1)"

definition click_element :: "string \<Rightarrow> int \<Rightarrow> bool prog" where
  "click_element xpath timeout e s =
     (let s1 = emit (WaitClickable xpath timeout) (s\<lparr>n_click := n_click s + 1\<rparr>)
      in case clickables e (n_click s) of
           Inl x \<Rightarrow> if x = TimeoutException then Some (Inr False, s1) else Some (Inl x, s1)
         | Inr el \<Rightarrow> wait_for_page_load 0 TIMEOUT e (emit (Click xpath el) s1))"

definition select_by_option_value ::
  "string \<Rightarrow> string \<Rightarrow> int \<Rightarrow> env \<Rightarrow> state \<Rightarrow> (exn + bool) \<times> state" where
  "select_by_option_value xpath v timeout e s =
     (case find_element xpath timeout True e s of
        (Inl x, s1) \<Rightarrow> (Inl x, s1)
      | (Inr None, s1) \<Rightarrow> (Inr False, s1)
      | (Inr (Some select_element), s1) \<Rightarrow>
          (let s2 = emit (SelectValue select_element v) (s1\<lparr>n_select := n_select s1 + 1\<rparr>)
           in case selects e (n_select s1) of
                None \<Rightarrow> (Inr True, s2)
              | Some x \<Rightarrow> (Inr False, s2)))"

text \<open>
  The \<^verbatim>\<open>for handle in window_handles\<close> loop of \<^verbatim>\<open>switch_to_window\<close>; the list holds
  the current URL of every window, in the order of the handles.
\<close>

fun scan_windows :: "string \<Rightarrow> string list \<Rightarrow> nat \<Rightarrow> state \<Rightarrow> bool \<times> state" where
  "scan_windows url [] i s = (False, s)"
| "scan_windows url (u # us) i s =
     (if sublist url u then (True, emit (SwitchWindow i) s)
      else scan_windows url us (Suc i) (emit (SwitchWindow i) s))"

text \<open>
  The oracle \<open>windows\<close> gives the windows that are open when the wait ends; the wait for
  \<^verbatim>\<open>len(driver.window_handles) >= min_windows\<close> times out when there are fewer.
\<close>

definition switch_to_window ::
  "string \<Rightarrow> int \<Rightarrow> nat \<Rightarrow> env \<Rightarrow> state \<Rightarrow> (exn + bool) \<times> state" where
  "switch_to_window url timeout min_windows e s =
     (let s1 = emit (WaitWindows min_windows timeout) (s\<lparr>n_window := n_window s + 1\<rparr>)
      in case windows e (n_window s) of
           Inl x \<Rightarrow> if x = TimeoutException then (Inr False, s1) else (Inl x, s1)
         | Inr urls \<Rightarrow>
             if length urls \<ge> min_windows then (Inr (fst (scan_windows url urls 0 s1)),
                                                 snd (scan_windows url urls 0 s1))
             else (Inr False, s1))"

definition switch_to_iframe ::
  "string \<Rightarrow> int \<Rightarrow> env \<Rightarrow> state \<Rightarrow> (exn + bool) \<times> state" where
  "switch_to_iframe xpath timeout e s =
     (case find_element xpath timeout True e s of
        (Inl x, s1) \<Rightarrow> (Inl x, s1)
      | (Inr None, s1) \<Rightarrow> (Inr False, s1)
      | (Inr (Some iframe), s1) \<Rightarrow> (Inr True, emit (SwitchFrame iframe) s1))"

definition get_screenshot :: "env \<Rightarrow> state \<Rightarrow> bool \<times> state" where
  "get_screenshot e s =
     (let file_name = stamp e (clock s) @ ''.png'';
          file_path = download_dir e @ ''/'' @ file_name;
          s1 = emit (Screenshot file_path) (s\<lparr>n_shot := n_shot s + 1\<rparr>)
      in if shots e (n_shot s) then (True, s1\<lparr>written := written s1 @ [file_path]\<rparr>)
         else (False, s1))"

text \<open>The undecorated body of \<^verbatim>\<open>file_download\<close>, and the method as \<^verbatim>\<open>@check_new_file\<close> leaves it.\<close>

definition file_download_body :: "kwargs \<Rightarrow> bool prog" where
  "file_download_body kw e s =
     (case click_element (get_xpath kw) TIMEOUT e
             (snd (get_screenshot e s)) of
        None \<Rightarrow> None
      | Some (Inl x, s1) \<Rightarrow> Some (Inl x, s1)
      | Some (Inr download_clicked, s1) \<Rightarrow>
          if download_clicked then Some (Inr True, s1) else Some (Inr False, s1))"

definition file_download :: "kwargs \<Rightarrow> bool prog" where
  "file_download = check_new_file file_download_body"

section \<open>processors/geocoding_processor/geocoder.py\<close>

text \<open>\<^verbatim>\<open>driver.refresh()\<close> and \<^verbatim>\<open>download_button.get_attribute("class")\<close>.\<close>

definition refresh :: "env \<Rightarrow> state \<Rightarrow> (exn + unit) \<times> state" where
  "refresh e s =
     (let s1 = emit Refresh (s\<lparr>n_refresh := n_refresh s + 1\<rparr>)
      in case refreshes e (n_refresh s) of None \<Rightarrow> (Inr (), s1) | Some x \<Rightarrow> (Inl x, s1))"

definition get_attribute :: "element \<Rightarrow> string \<Rightarrow> env \<Rightarrow> state \<Rightarrow> string option \<times> state" where
  "get_attribute el name e s =
     (classes e (n_class s), emit (GetAttribute name) (s\<lparr>n_class := n_class s + 1\<rparr>))"

text \<open>
  The local variable \<^verbatim>\<open>download_button\<close> of \<^verbatim>\<open>monitoring_progress\<close>: not yet assigned,
  or holding what \<^verbatim>\<open>find_element\<close> returned (\<open>None\<close> for \<^verbatim>\<open>False\<close>).
\<close>

datatype binding = Unbound | Bound "element option"

text \<open>
  How the \<^verbatim>\<open>while retries < max_retries\<close> loop is left: by an exception that escapes it,
  by \<^verbatim>\<open>return\<close>, or by \<^verbatim>\<open>break\<close> or a false loop condition, with the value of
  \<^verbatim>\<open>download_button\<close>.
\<close>

datatype poll_result = Raised exn | Returned bool | Exited binding

definition max_retries :: nat where
  "max_retries = 30"

text \<open>
  The two XPath fragments end in Korean button captions in the source; the captions are
  written in English here.
\<close>

definition file_name_td :: "string \<Rightarrow> string" where
  "file_name_td name = ''//div[contains(text(), '' @ [CHR 0x22] @ name @ [CHR 0x22] @ '')]/..''"

definition download_xpath :: string where
  "download_xpath = ''/following-sibling::td[3]//*[text()=download]''"

definition delete_xpath :: string where
  "delete_xpath = ''/following-sibling::td[3]//*[text()=clear history]''"

text \<open>The \<^verbatim>\<open>except Exception\<close> block of the poll loop up to its \<^verbatim>\<open>time.sleep(5)\<close>.\<close>

definition poll_except :: "env \<Rightarrow> nat \<Rightarrow> state \<Rightarrow> (exn + nat) \<times> state" where
  "poll_except e retries s =
     (case refresh e s of
        (Inl x, s1) \<Rightarrow> (Inl x, s1)
      | (Inr u, s1) \<Rightarrow> (Inr (retries + 1), sleep 5 s1))"

function monitoring_poll ::
  "string \<Rightarrow> env \<Rightarrow> nat \<Rightarrow> binding \<Rightarrow> state \<Rightarrow> poll_result \<times> state" where
  "monitoring_poll xpath e retries download_button s =
     (if retries < max_retries then
        (case find_element xpath 5 False e s of
           (Inr None, s1) \<Rightarrow>
             if retries + 1 > max_retries then (Returned False, s1)
             else (case refresh e s1 of
                     (Inr u, s2) \<Rightarrow> monitoring_poll xpath e (retries + 1) (Bound None) s2
                   | (Inl x, s2) \<Rightarrow>
                       (case poll_except e (retries + 1) s2 of
                          (Inl y, s3) \<Rightarrow> (Raised y, s3)
                        | (Inr retries', s3) \<Rightarrow>
                            if retries' > max_retries then (Returned False, s3)
                            else monitoring_poll xpath e retries' (Bound None) s3))
         | (Inr (Some el), s1) \<Rightarrow> (Exited (Bound (Some el)), s1)
         | (Inl x, s1) \<Rightarrow>
             (case poll_except e retries s1 of
                (Inl y, s3) \<Rightarrow> (Raised y, s3)
              | (Inr retries', s3) \<Rightarrow>
                  if retries' > max_retries then (Returned False, s3)
                  else monitoring_poll xpath e retries' download_button s3))
      else (Exited download_button, s))"
  by pat_completeness auto
termination
  by (relation "measure (\<lambda>(xpath, e, retries, download_button, s). max_retries - retries)")
     (auto simp: poll_except_def split: prod.splits sum.splits)

declare monitoring_poll.simps [simp del]

text \<open>The \<^verbatim>\<open>while "disabled" in download_button.get_attribute("class")\<close> loop.\<close>

partial_function (option) monitoring_enabled ::
  "string \<Rightarrow> env \<Rightarrow> binding \<Rightarrow> state \<Rightarrow> ((exn + unit) \<times> state) option" where
  "monitoring_enabled xpath e download_button s =
     (case download_button of
        Unbound \<Rightarrow> Some (Inl UnboundLocalError, s)
      | Bound None \<Rightarrow> Some (Inl AttributeError, s)
      | Bound (Some el) \<Rightarrow>
          (case get_attribute el ''class'' e s of
             (None, s1) \<Rightarrow> Some (Inl TypeError, s1)
           | (Some cls, s1) \<Rightarrow>
               if sublist ''disabled'' cls then
                 (case refresh e s1 of
                    (Inl x, s2) \<Rightarrow> monitoring_enabled xpath e download_button s2
                  | (Inr u, s2) \<Rightarrow>
                      (case find_element xpath TIMEOUT False e (sleep 10 s2) of
                         (Inl x, s3) \<Rightarrow> monitoring_enabled xpath e download_button s3
                       | (Inr r, s3) \<Rightarrow> monitoring_enabled xpath e (Bound r) s3))
               else Some (Inr (), s1)))"

declare monitoring_enabled.simps [code]

text \<open>The download step: \<^verbatim>\<open>file_download\<close>, the click on the clear-history control, \<^verbatim>\<open>return True\<close>.\<close>

definition monitoring_download :: "string \<Rightarrow> int \<Rightarrow> bool prog" where
  "monitoring_download name timeout e s =
     (case file_download \<lparr>kw_xpath = Some (file_name_td name @ download_xpath),
                          kw_timeout = Some timeout\<rparr> e s of
        None \<Rightarrow> None
      | Some (Inl x, s1) \<Rightarrow> Some (Inl x, s1)
      | Some (Inr downloaded, s1) \<Rightarrow>
          (case click_element (file_name_td name @ delete_xpath) TIMEOUT e s1 of
             None \<Rightarrow> None
           | Some (Inl x, s2) \<Rightarrow> Some (Inl x, s2)
           | Some (Inr cleared, s2) \<Rightarrow> Some (Inr True, s2)))"

text \<open>\<^verbatim>\<open>monitoring_progress\<close> from the readiness loop on.\<close>

definition monitoring_ready :: "string \<Rightarrow> int \<Rightarrow> binding \<Rightarrow> bool prog" where
  "monitoring_ready name timeout download_button e s =
     (case monitoring_enabled (file_name_td name @ download_xpath) e download_button s of
        None \<Rightarrow> None
      | Some (Inl x, s1) \<Rightarrow> Some (Inl x, s1)
      | Some (Inr u, s1) \<Rightarrow> monitoring_download name timeout e s1)"

text \<open>\<^verbatim>\<open>monitoring_progress\<close> from the poll for the job's row on.\<close>

definition monitoring_row :: "string \<Rightarrow> int \<Rightarrow> bool prog" where
  "monitoring_row name timeout e s =
     (case monitoring_poll (file_name_td name @ download_xpath) e 0 Unbound s of
        (Raised x, s1) \<Rightarrow> Some (Inl x, s1)
      | (Returned b, s1) \<Rightarrow> Some (Inr b, s1)
      | (Exited download_button, s1) \<Rightarrow> monitoring_ready name timeout download_button e s1)"

definition monitoring_url :: string where
  "monitoring_url = ''http://geobigdata.go.kr/portal/geomonitoring/geocodingMonitoring.do''"

definition monitoring_progress :: "string \<Rightarrow> int \<Rightarrow> bool prog" where
  "monitoring_progress name timeout e s =
     (case switch_to_window ''geocodingMonitoring'' 30 2 e s of
        (Inl x, s1) \<Rightarrow> Some (Inl x, s1)
      | (Inr popup, s1) \<Rightarrow>
          (case (if \<not> popup then fetch_page monitoring_url TIMEOUT e s1
                 else Some (Inr True, s1)) of
             None \<Rightarrow> None
           | Some (Inl x, s2) \<Rightarrow> Some (Inl x, s2)
           | Some (Inr fetched, s2) \<Rightarrow> monitoring_row name timeout e s2))"

section \<open>Example environments\<close>

text \<open>
  Concrete browsers and directories for the runs below. In \<open>env_quiet\<close> no dialog is ever
  open, every page is ready, every element is found, the monitoring popup is open, the
  control is enabled, and the directory holds the one file \<open>A\<close>; the others differ from it
  in one or two oracles.
\<close>

definition env_quiet :: env where
  "env_quiet = \<lparr>download_dir = ''/dl'', downloads = (\<lambda>t. [''/dl/A'']),
     stamp = (\<lambda>t. ''2025-01-01_000000''), stack_room = 1000, gets = (\<lambda>k. None),
     alerts = (\<lambda>k. Some NoAlertPresentException), readys = (\<lambda>k. None),
     visibles = (\<lambda>k. Inr 1), all_visibles = (\<lambda>k. Inr [1]),
     clickables = (\<lambda>k. Inr 1), selects = (\<lambda>k. None),
     windows = (\<lambda>k. Inr [''http://geobigdata.go.kr/portal/analysis/geoCoding.do'',
        ''http://geobigdata.go.kr/portal/geomonitoring/geocodingMonitoring.do'']),
     refreshes = (\<lambda>k. None), classes = (\<lambda>k. Some ''btn''), shots = (\<lambda>k. True)\<rparr>"

definition env_B :: env where
  "env_B = env_quiet\<lparr>downloads := (\<lambda>t. if t < 10 then [''/dl/A'']
      else if t < 20 then [''/dl/A'', ''/dl/B.tmp''] else [''/dl/A'', ''/dl/B''])\<rparr>"

definition s_init :: state where
  "s_init = \<lparr>clock = 0, written = [], trace = [], n_get = 0, n_alert = 0, n_ready = 0, n_visible = 0,
     n_all = 0, n_click = 0, n_select = 0, n_window = 0, n_refresh = 0, n_class = 0, n_shot = 0\<rparr>"

definition trigger_ok :: "kwargs \<Rightarrow> bool prog" where
  "trigger_ok kw e s = Some (Inr True, s)"

definition trigger_failed :: "kwargs \<Rightarrow> bool prog" where
  "trigger_failed kw e s = Some (Inr False, s)"

definition kw_minute :: kwargs where
  "kw_minute = \<lparr>kw_xpath = None, kw_timeout = Some 60\<rparr>"

definition env_slow_page :: env where
  "env_slow_page = env_quiet\<lparr>gets := (\<lambda>k. Some TimeoutException)\<rparr>"

definition env_dialog_storm :: env where
  "env_dialog_storm = env_quiet\<lparr>readys := (\<lambda>k. Some UnexpectedAlertPresentException)\<rparr>"

definition env_window_closed :: env where
  "env_window_closed = env_quiet\<lparr>alerts := (\<lambda>k. Some NoSuchWindowException),
     readys := (\<lambda>k. Some NoSuchWindowException)\<rparr>"

definition kw_short :: kwargs where
  "kw_short = \<lparr>kw_xpath = Some ''//a'', kw_timeout = Some 3\<rparr>"

definition env_same_name :: env where
  "env_same_name = env_quiet\<lparr>downloads := (\<lambda>t. [''/dl/2025-01-01_000000.png''])\<rparr>"

definition env_row_third :: env where
  "env_row_third = env_quiet\<lparr>visibles := (\<lambda>k. if k < 2 then Inl TimeoutException else Inr 1)\<rparr>"

definition env_two_refreshes :: env where
  "env_two_refreshes = env_quiet\<lparr>classes := (\<lambda>k. if k < 2 then Some ''btn disabled'' else Some ''btn'')\<rparr>"

definition env_never :: env where
  "env_never = env_quiet\<lparr>visibles := (\<lambda>k. Inl TimeoutException)\<rparr>"

definition env_no_file :: env where
  "env_no_file = env_quiet\<lparr>shots := (\<lambda>k. False)\<rparr>"

definition kw_chunk :: kwargs where
  "kw_chunk = \<lparr>kw_xpath = Some (file_name_td ''chunk_0.xlsx'' @ download_xpath), kw_timeout = Some 5\<rparr>"

section \<open>The download detector\<close>

lemma clock_glob: "clock (snd (glob e s)) = clock s" and written_glob: "written (snd (glob e s)) = written s"
  and fst_glob: "fst (glob e s) = listing e s (clock s)"
  by (simp_all add: glob_def emit_def)

lemma clock_sleep: "clock (sleep d s) = clock s + d" and written_sleep: "written (sleep d s) = written s"
  by (simp_all add: sleep_def emit_def)

lemma listing_cong: "written s' = written s \<Longrightarrow> listing e s' t = listing e s t"
  by (simp add: listing_def)

lemma downloaded_files_nonempty:
  "downloaded_files initial_files current \<noteq> [] \<longleftrightarrow>
     (\<exists>f \<in> set current. f \<notin> set initial_files \<and> \<not> is_tmp f)"
  by (auto simp: downloaded_files_def filter_empty_conv)

text \<open>
  The test reads the whole path; since no suffix holds a separator, it is a test on the
  file's name.
\<close>

lemma suffix_after_sep: "c \<notin> set xs \<Longrightarrow> suffix xs (a @ c # b) = suffix xs b"
  by (auto simp: suffix_append suffix_Cons)

lemma is_tmp_name: "is_tmp (d @ ''/'' @ n) = is_tmp n"
proof -
  have "lower (d @ ''/'' @ n) = lower d @ CHR ''/'' # lower n"
    by (simp add: lower_def lower_char_def)
  then show ?thesis
    by (simp add: is_tmp_def endswith_def suffix_after_sep)
qed

lemma poll_new_file_fst:
  "fst (poll_new_file e initial_files end_time s) \<longleftrightarrow>
     (\<exists>i::nat. clock s + 10 * int i < end_time \<and>
        downloaded_files initial_files (listing e s (clock s + 10 * int i)) \<noteq> [])"
proof (induction e initial_files end_time s rule: poll_new_file.induct)
  case (1 e initial_files end_time s)
  let ?D = "\<lambda>t. downloaded_files initial_files (listing e s t) \<noteq> []"
  show ?case
  proof (cases "clock s < end_time")
    case False
    then have "\<not> fst (poll_new_file e initial_files end_time s)"
      by (simp add: poll_new_file.simps [of e initial_files end_time s])
    moreover from False have "\<not> (\<exists>i::nat. clock s + 10 * int i < end_time \<and> ?D (clock s + 10 * int i))"
      by auto
    ultimately show ?thesis by blast
  next
    case True
    show ?thesis
    proof (cases "?D (clock s)")
      case now: True
      with True have "fst (poll_new_file e initial_files end_time s)"
        by (simp add: poll_new_file.simps [of e initial_files end_time s] fst_glob)
      moreover from True now have "\<exists>i::nat. clock s + 10 * int i < end_time \<and> ?D (clock s + 10 * int i)"
        by (intro exI [of _ 0]) simp
      ultimately show ?thesis by blast
    next
      case later: False
      let ?s' = "sleep 10 (snd (glob e s))"
      from True later have step: "poll_new_file e initial_files end_time s =
          poll_new_file e initial_files end_time ?s'"
        by (simp add: poll_new_file.simps [of e initial_files end_time s] fst_glob)
      from True later have ih: "fst (poll_new_file e initial_files end_time ?s') \<longleftrightarrow>
          (\<exists>i::nat. clock ?s' + 10 * int i < end_time \<and>
             downloaded_files initial_files (listing e ?s' (clock ?s' + 10 * int i)) \<noteq> [])"
        by (intro "1.IH") (simp_all add: fst_glob)
      have "(\<exists>i::nat. clock s + 10 + 10 * int i < end_time \<and> ?D (clock s + 10 + 10 * int i)) \<longleftrightarrow>
            (\<exists>i::nat. clock s + 10 * int i < end_time \<and> ?D (clock s + 10 * int i))"
        (is "?L \<longleftrightarrow> ?R")
      proof
        assume ?L
        then obtain i :: nat where "clock s + 10 + 10 * int i < end_time" "?D (clock s + 10 + 10 * int i)"
          by blast
        then have "clock s + 10 * int (Suc i) < end_time \<and> ?D (clock s + 10 * int (Suc i))"
          by (simp add: algebra_simps)
        then show ?R by blast
      next
        assume ?R
        then obtain i :: nat where i: "clock s + 10 * int i < end_time" "?D (clock s + 10 * int i)"
          by blast
        with later have "i \<noteq> 0" by (cases i) auto
        then obtain j where "i = Suc j" by (cases i) auto
        with i have "clock s + 10 + 10 * int j < end_time \<and> ?D (clock s + 10 + 10 * int j)"
          by (simp add: algebra_simps)
        then show ?L by blast
      qed
      with step ih show ?thesis
        by (simp add: clock_sleep clock_glob
              listing_cong [of ?s' s] written_sleep written_glob)
    qed
  qed
qed

lemma check_new_file_clicked:
  assumes "func kw e (snd (glob e s)) = Some (Inr True, s2)"
  shows "check_new_file func kw e s =
     Some (Inr (fst (poll_new_file e (fst (glob e s)) (clock s + get_timeout kw) s2)),
           snd (poll_new_file e (fst (glob e s)) (clock s + get_timeout kw) s2))"
  using assms by (simp add: check_new_file_def Let_def clock_glob)

text \<open>
  Claim C4. When the trigger reports success in state \<open>s2\<close>, the detector returns, and its
  result is true exactly when at one of the poll instants \<open>clock s2 + 10 * i\<close> that lie
  before the deadline \<open>clock s + timeout\<close> the directory holds a path that was not in the
  snapshot and does not end in \<^verbatim>\<open>.crdownload\<close> or \<^verbatim>\<open>.tmp\<close> (compared in lower case).
  So new files that are all provisional never give true, and a run in which no such path
  shows up at a poll before the deadline gives false.
\<close>

theorem detector_true_iff:
  assumes "func kw e (snd (glob e s)) = Some (Inr True, s2)"
  shows "\<exists>s3. check_new_file func kw e s =
     Some (Inr (\<exists>i::nat. clock s2 + 10 * int i < clock s + get_timeout kw \<and>
                  (\<exists>f \<in> set (listing e s2 (clock s2 + 10 * int i)).
                      f \<notin> set (listing e s (clock s)) \<and> \<not> is_tmp f)), s3)"
  using check_new_file_clicked [of func kw e s s2] assms
  by (simp add: poll_new_file_fst downloaded_files_nonempty fst_glob)

text \<open>
  Claim C5. When the wrapped trigger reports failure, the detector returns false in the
  very state the trigger left: nothing is listed and nothing is slept after the trigger.
\<close>

theorem detector_trigger_failed:
  assumes "func kw e (snd (glob e s)) = Some (Inr False, s2)"
  shows "check_new_file func kw e s = Some (Inr False, s2)"
  using assms by (simp add: check_new_file_def Let_def)

text \<open>
  Claim C8. The trigger runs on the state that already holds the snapshot's \<open>Glob\<close>, and a
  true result needs a path, listed at some poll, that is not provisional and not in that
  snapshot: a path that was in the directory before the trigger never makes the result true.
\<close>

theorem detector_snapshot_first:
  assumes "check_new_file func kw e s = Some (Inr True, s3)"
  shows "trace (snd (glob e s)) = trace s @ [Glob] \<and>
     (\<exists>s2. func kw e (snd (glob e s)) = Some (Inr True, s2) \<and>
        (\<exists>i::nat. \<exists>f \<in> set (listing e s2 (clock s2 + 10 * int i)).
            f \<notin> set (listing e s (clock s)) \<and> \<not> is_tmp f))"
proof -
  have "trace (snd (glob e s)) = trace s @ [Glob]"
    by (simp add: glob_def emit_def)
  moreover from assms obtain s2 where run: "func kw e (snd (glob e s)) = Some (Inr True, s2)"
    and res: "fst (poll_new_file e (fst (glob e s)) (clock s + get_timeout kw) s2)"
    by (auto simp: check_new_file_def Let_def clock_glob split: option.splits sum.splits if_splits)
  moreover from res have "\<exists>i::nat. \<exists>f \<in> set (listing e s2 (clock s2 + 10 * int i)).
            f \<notin> set (listing e s (clock s)) \<and> \<not> is_tmp f"
    by (auto simp: poll_new_file_fst downloaded_files_nonempty fst_glob)
  ultimately show ?thesis by blast
qed

lemma is_tmp_examples: "\<not> is_tmp ''/dl/B''" "is_tmp ''/dl/B.tmp''" "\<not> is_tmp ''/dl/A''"
  by code_simp+

lemma B_arrives:
  "\<exists>i::nat. clock s_init + 10 * int i < clock s_init + get_timeout kw_minute \<and>
     (\<exists>f \<in> set (listing env_B s_init (clock s_init + 10 * int i)).
         f \<notin> set (listing env_B s_init (clock s_init)) \<and> \<not> is_tmp f)"
  by (rule exI [of _ 2])
     (simp add: s_init_def env_B_def kw_minute_def get_timeout_def listing_def is_tmp_examples)

text \<open>
  The run of the specification: \<open>A\<close> is there from the start, \<open>B.tmp\<close> appears at time 10
  and becomes \<open>B\<close> at time 20.
\<close>

theorem detector_true_iff_witness:
  "trigger_ok kw_minute env_B (snd (glob env_B s_init)) = Some (Inr True, snd (glob env_B s_init)) \<and>
   (\<exists>s3. check_new_file trigger_ok kw_minute env_B s_init = Some (Inr True, s3))"
  using detector_true_iff [of trigger_ok kw_minute env_B s_init "snd (glob env_B s_init)"] B_arrives
  by (simp add: trigger_ok_def clock_glob listing_cong [of "snd (glob env_B s_init)" s_init] written_glob)

theorem detector_trigger_failed_witness:
  "check_new_file trigger_failed kw_minute env_B s_init = Some (Inr False, emit Glob s_init)"
  using detector_trigger_failed [of trigger_failed kw_minute env_B s_init "snd (glob env_B s_init)"]
  by (simp add: trigger_failed_def glob_def)

theorem detector_snapshot_first_witness:
  "\<exists>s3. check_new_file trigger_ok kw_minute env_B s_init = Some (Inr True, s3) \<and>
     trace (snd (glob env_B s_init)) = trace s_init @ [Glob] \<and>
     (\<exists>s2. trigger_ok kw_minute env_B (snd (glob env_B s_init)) = Some (Inr True, s2) \<and>
        (\<exists>i::nat. \<exists>f \<in> set (listing env_B s2 (clock s2 + 10 * int i)).
            f \<notin> set (listing env_B s_init (clock s_init)) \<and> \<not> is_tmp f))"
proof -
  have "trigger_ok kw_minute env_B (snd (glob env_B s_init)) = Some (Inr True, snd (glob env_B s_init))"
    by (simp add: trigger_ok_def)
  from check_new_file_clicked [of trigger_ok kw_minute env_B s_init, OF this] B_arrives
  obtain s3 where run: "check_new_file trigger_ok kw_minute env_B s_init = Some (Inr True, s3)"
    by (simp add: poll_new_file_fst downloaded_files_nonempty fst_glob clock_glob
          listing_cong [of "snd (glob env_B s_init)" s_init] written_glob)
  from detector_snapshot_first [OF run] run show ?thesis by blast
qed

section \<open>The Load-Wait protocol and the action primitives\<close>

lemma yes_to_alert_accepted:
  assumes "alerts e (n_alert s) = None"
  shows "yes_to_alert e s = yes_to_alert e (emit Dismiss ((sleep 3 s)\<lparr>n_alert := n_alert s + 1\<rparr>))"
  apply (subst yes_to_alert.simps)
  using assms
  apply (simp add: alert_accept_def sleep_def emit_def)
  done

lemma yes_to_alert_raised:
  assumes "alerts e (n_alert s) = Some x"
  shows "yes_to_alert e s =
     (if x = NoAlertPresentException \<or> x = NoSuchWindowException
      then Some (Inr (), (sleep 3 s)\<lparr>n_alert := n_alert s + 1\<rparr>)
      else Some (Inl x, (sleep 3 s)\<lparr>n_alert := n_alert s + 1\<rparr>))"
  apply (subst yes_to_alert.simps)
  using assms
  apply (simp add: alert_accept_def sleep_def emit_def)
  done

text \<open>
  \<open>N\<close> dialogs presented one after the other and then none: \<^verbatim>\<open>_yes_to_alert\<close> returns after
  exactly \<open>N\<close> dismissals.
\<close>

lemma yes_to_alert_dismissals:
  assumes "\<forall>i<N. alerts e (n_alert s + i) = None"
    and "alerts e (n_alert s + N) = Some x"
    and "x = NoAlertPresentException \<or> x = NoSuchWindowException"
  shows "\<exists>s1. yes_to_alert e s = Some (Inr (), s1) \<and>
     trace s1 = trace s @ concat (replicate N [Sleep 3, Dismiss]) @ [Sleep 3]"
  using assms
proof (induction N arbitrary: s)
  case 0
  then have "alerts e (n_alert s) = Some x" by simp
  from yes_to_alert_raised [OF this] 0(3) show ?case
    by (simp add: sleep_def emit_def)
next
  case (Suc N)
  let ?s = "emit Dismiss ((sleep 3 s)\<lparr>n_alert := n_alert s + 1\<rparr>)"
  from Suc.prems(1) have first: "alerts e (n_alert s) = None"
    by (metis add.right_neutral zero_less_Suc)
  have tr: "trace ?s = trace s @ [Sleep 3, Dismiss]"
    by (simp add: sleep_def emit_def)
  have "alerts e (n_alert ?s + i) = None" if "i < N" for i
    using Suc.prems(1) [rule_format, of "Suc i"] that by (simp add: sleep_def emit_def)
  moreover have "alerts e (n_alert ?s + N) = Some x"
    using Suc.prems(2) by (simp add: sleep_def emit_def)
  ultimately obtain s1 where "yes_to_alert e ?s = Some (Inr (), s1)"
    and "trace s1 = trace ?s @ concat (replicate N [Sleep 3, Dismiss]) @ [Sleep 3]"
    using Suc.IH [of ?s] Suc.prems(3) by blast
  with yes_to_alert_accepted [OF first] show ?case
    by (simp add: sleep_def emit_def)
qed

lemma yes_to_alert_inv:
  assumes "yes_to_alert e s = Some y"
  shows "written (snd y) = written s \<and>
     (\<exists>rest. trace (snd y) = trace s @ rest \<and> set rest \<subseteq> {Sleep 3, Dismiss})"
proof (rule yes_to_alert.raw_induct [where P = "\<lambda>e s y. written (snd y) = written s \<and>
    (\<exists>rest. trace (snd y) = trace s @ rest \<and> set rest \<subseteq> {Sleep 3, Dismiss})", OF _ assms], goal_cases)
  case (1 yes e s y)
  show ?case
  proof (cases "alerts e (n_alert s)")
    case None
    with 1(2) have "yes e (emit Dismiss ((sleep 3 s)\<lparr>n_alert := n_alert s + 1\<rparr>)) = Some y"
      by (simp add: alert_accept_def sleep_def emit_def)
    from 1(1) [OF this] obtain rest where "written (snd y) = written s"
      and "trace (snd y) = trace s @ [Sleep 3, Dismiss] @ rest" and "set rest \<subseteq> {Sleep 3, Dismiss}"
      by (auto simp: sleep_def emit_def)
    then show ?thesis
      by (intro conjI exI [of _ "[Sleep 3, Dismiss] @ rest"]) simp_all
  next
    case (Some x)
    with 1(2) have "written (snd y) = written s" and "trace (snd y) = trace s @ [Sleep 3]"
      by (auto simp: alert_accept_def sleep_def emit_def split: if_splits)
    then show ?thesis
      by (intro conjI exI [of _ "[Sleep 3]"]) simp_all
  qed
qed

lemma wait_ready_inv:
  "written (snd (wait_ready t e s)) = written s"
  "trace (snd (wait_ready t e s)) = trace s @ [WaitReady t]"
  by (simp_all add: wait_ready_def emit_def Let_def split: option.splits)

lemma wait_for_page_load_inv:
  assumes "wait_for_page_load d t e s = Some y"
  shows "written (snd y) = written s \<and>
     (\<exists>rest. trace (snd y) = trace s @ rest \<and> set rest \<subseteq> {Sleep 3, Dismiss, WaitReady t})"
proof (rule wait_for_page_load.raw_induct [where P = "\<lambda>d t e s y. written (snd y) = written s \<and>
    (\<exists>rest. trace (snd y) = trace s @ rest \<and> set rest \<subseteq> {Sleep 3, Dismiss, WaitReady t})",
    OF _ assms], goal_cases)
  case (1 wait d t e s y)
  show ?case
  proof (cases "stack_room e \<le> d")
    case True
    with 1(2) have "snd y = s" by auto
    then show ?thesis by simp
  next
    case room: False
    with 1(2) obtain r1 s1 where a: "yes_to_alert e s = Some (r1, s1)"
      by (cases "yes_to_alert e s") auto
    from yes_to_alert_inv [OF a] obtain rest1 where s1: "written s1 = written s"
      "trace s1 = trace s @ rest1" "set rest1 \<subseteq> {Sleep 3, Dismiss}"
      by auto
    obtain r2 s2 where w: "wait_ready t e s1 = (r2, s2)"
      by (cases "wait_ready t e s1")
    with wait_ready_inv [of t e s1] s1 have s2: "written s2 = written s"
      "trace s2 = trace s @ (rest1 @ [WaitReady t])"
      by simp_all
    show ?thesis
    proof (cases "r1 = Inr () \<and> r2 = Inl UnexpectedAlertPresentException")
      case False
      with 1(2) room a w have "snd y = s1 \<or> snd y = s2"
        by (cases r1; cases r2) (auto split: if_splits)
      then show ?thesis
      proof
        assume "snd y = s1"
        with s1 show ?thesis
          by (intro conjI exI [of _ rest1]) auto
      next
        assume "snd y = s2"
        with s1 s2 show ?thesis
          by (intro conjI exI [of _ "rest1 @ [WaitReady t]"]) auto
      qed
    next
      case True
      with 1(2) room a w obtain r3 s3 where b: "yes_to_alert e s2 = Some (r3, s3)"
        by (cases "yes_to_alert e s2") auto
      from yes_to_alert_inv [OF b] s2 obtain rest3 where
        s3: "written s3 = written s" "trace s3 = trace s @ (rest1 @ [WaitReady t] @ rest3)"
          "set rest3 \<subseteq> {Sleep 3, Dismiss}"
        by auto
      show ?thesis
      proof (cases r3)
        case (Inl x)
        with True 1(2) room a w b have "snd y = s3" by auto
        with s1 s3 show ?thesis
          by (intro conjI exI [of _ "rest1 @ [WaitReady t] @ rest3"]) auto
      next
        case (Inr u)
        with True 1(2) room a w b have "wait (Suc d) t e s3 = Some y" by auto
        from 1(1) [OF this] obtain rest4 where "written (snd y) = written s3"
          and "trace (snd y) = trace s3 @ rest4" and "set rest4 \<subseteq> {Sleep 3, Dismiss, WaitReady t}"
          by auto
        with s1 s3 show ?thesis
          by (intro conjI exI [of _ "rest1 @ [WaitReady t] @ rest3 @ rest4"]) auto
      qed
    qed
  qed
qed

lemma wait_for_page_load_unfold:
  assumes "d < stack_room e" and "yes_to_alert e s = Some (Inr (), s1)"
  shows "wait_for_page_load d t e s =
     (case wait_ready t e s1 of
        (Inr u, s2) \<Rightarrow> Some (Inr True, s2)
      | (Inl x, s2) \<Rightarrow>
          if x = TimeoutException then Some (Inr False, s2)
          else if x = UnexpectedAlertPresentException then
            (case yes_to_alert e s2 of
               None \<Rightarrow> None
             | Some (Inl y, s3) \<Rightarrow> Some (Inl y, s3)
             | Some (Inr u, s3) \<Rightarrow> wait_for_page_load (Suc d) t e s3)
          else Some (Inl x, s2))"
  apply (subst wait_for_page_load.simps)
  using assms
  apply simp
  done

text \<open>
  Claim C9 fails on the code in its last part, "never raises". The window has been closed:
  the dialog probe's \<^verbatim>\<open>NoSuchWindowException\<close> is caught and ends \<^verbatim>\<open>_yes_to_alert\<close>, the same
  exception from the readiness wait is caught by neither \<^verbatim>\<open>except\<close> clause and leaves
  \<^verbatim>\<open>_wait_for_page_load\<close>, and with it \<^verbatim>\<open>click_element\<close>, as an exception.
\<close>

theorem load_wait_raises:
  "map_option fst (wait_for_page_load 0 TIMEOUT env_window_closed s_init) =
     Some (Inl NoSuchWindowException) \<and>
   map_option fst (click_element ''//a'' TIMEOUT env_window_closed s_init) =
     Some (Inl NoSuchWindowException)"
  by code_simp

text \<open>
  A second way out of the protocol by an exception: when every readiness wait is interrupted
  by a dialog, every restart is one more frame, and the frame that no longer fits raises
  \<^verbatim>\<open>RecursionError\<close>.
\<close>

lemma load_wait_recursion_error:
  assumes "\<And>k. alerts e k = Some NoAlertPresentException"
    and "\<And>k. readys e k = Some UnexpectedAlertPresentException"
  shows "map_option fst (wait_for_page_load d t e s) = Some (Inl RecursionError)"
proof (induction "stack_room e - d" arbitrary: d s)
  case 0
  then show ?case
    by (subst wait_for_page_load.simps) simp
next
  case (Suc n)
  then have room: "d < stack_room e" by simp
  let ?s1 = "(sleep 3 s)\<lparr>n_alert := n_alert s + 1\<rparr>"
  let ?s2 = "snd (wait_ready t e ?s1)"
  let ?s3 = "(sleep 3 ?s2)\<lparr>n_alert := n_alert ?s2 + 1\<rparr>"
  from yes_to_alert_raised [OF assms(1), of s] yes_to_alert_raised [OF assms(1), of ?s2]
  have a: "yes_to_alert e s = Some (Inr (), ?s1)" and b: "yes_to_alert e ?s2 = Some (Inr (), ?s3)"
    by simp_all
  from wait_for_page_load_unfold [OF room a, of t] b assms(2) [of "n_ready ?s1"]
  have "wait_for_page_load d t e s = wait_for_page_load (Suc d) t e ?s3"
    by (simp add: wait_ready_def Let_def)
  moreover from Suc.hyps(2) have "n = stack_room e - Suc d" by simp
  ultimately show ?case
    using Suc.hyps(1) [of "Suc d" ?s3] by simp
qed

lemma load_wait_recursion_error_example:
  "map_option fst (click_element ''//a'' TIMEOUT env_dialog_storm s_init) = Some (Inl RecursionError)"
proof -
  have "alerts env_dialog_storm k = Some NoAlertPresentException"
    "readys env_dialog_storm k = Some UnexpectedAlertPresentException" for k
    by (simp_all add: env_dialog_storm_def env_quiet_def)
  from load_wait_recursion_error [of env_dialog_storm, OF this] show ?thesis
    by (simp add: click_element_def Let_def env_dialog_storm_def env_quiet_def s_init_def)
qed

lemma scan_windows_fst: "fst (scan_windows url urls i s) = (\<exists>u \<in> set urls. sublist url u)"
  by (induction urls arbitrary: i s) auto

text \<open>
  An element that does not become visible or clickable within the wait, a window count that
  stays below \<^verbatim>\<open>min_windows\<close>, no window whose URL matches, and a page that \<^verbatim>\<open>driver.get\<close> has
  loaded but that does not become ready within the wait all give \<^verbatim>\<open>False\<close> (\<open>None\<close> for the
  sentinel of the two locate operations), never an exception.
\<close>

lemma primitives_absent:
  "(gets e (n_get s) = None \<and> 0 < stack_room e \<and>
    yes_to_alert e (emit (Get url) (s\<lparr>n_get := n_get s + 1\<rparr>)) = Some (Inr (), s1) \<and>
      readys e (n_ready s1) = Some TimeoutException \<longrightarrow>
      map_option fst (fetch_page url t e s) = Some (Inr False)) \<and>
   (visibles e (n_visible s) = Inl TimeoutException \<longrightarrow>
      fst (find_element x t lg e s) = Inr None \<and>
      fst (send_key x v t e s) = Inr False \<and>
      fst (select_by_option_value x v t e s) = Inr False \<and>
      fst (switch_to_iframe x t e s) = Inr False) \<and>
   (all_visibles e (n_all s) = Inl TimeoutException \<longrightarrow>
      fst (find_all_elements x t e s) = Inr None) \<and>
   (clickables e (n_click s) = Inl TimeoutException \<longrightarrow>
      map_option fst (click_element x t e s) = Some (Inr False)) \<and>
   (windows e (n_window s) = Inl TimeoutException \<or>
    (\<exists>urls. windows e (n_window s) = Inr urls \<and>
       (length urls < m \<or> \<not> (\<exists>u \<in> set urls. sublist url u))) \<longrightarrow>
      fst (switch_to_window url t m e s) = Inr False)"
proof (intro conjI impI)
  assume "gets e (n_get s) = None \<and> 0 < stack_room e \<and>
    yes_to_alert e (emit (Get url) (s\<lparr>n_get := n_get s + 1\<rparr>)) = Some (Inr (), s1) \<and>
      readys e (n_ready s1) = Some TimeoutException"
  then show "map_option fst (fetch_page url t e s) = Some (Inr False)"
    by (simp add: fetch_page_def Let_def wait_for_page_load_unfold [of 0 e _ s1] wait_ready_def)
next
  assume h: "visibles e (n_visible s) = Inl TimeoutException"
  then show "fst (find_element x t lg e s) = Inr None"
    by (simp add: find_element_def Let_def)
  from h show "fst (send_key x v t e s) = Inr False"
    by (simp add: send_key_def find_element_def Let_def)
  from h show "fst (select_by_option_value x v t e s) = Inr False"
    by (simp add: select_by_option_value_def find_element_def Let_def)
  from h show "fst (switch_to_iframe x t e s) = Inr False"
    by (simp add: switch_to_iframe_def find_element_def Let_def)
next
  assume "all_visibles e (n_all s) = Inl TimeoutException"
  then show "fst (find_all_elements x t e s) = Inr None"
    by (simp add: find_all_elements_def Let_def)
next
  assume "clickables e (n_click s) = Inl TimeoutException"
  then show "map_option fst (click_element x t e s) = Some (Inr False)"
    by (simp add: click_element_def Let_def)
next
  assume "windows e (n_window s) = Inl TimeoutException \<or>
    (\<exists>urls. windows e (n_window s) = Inr urls \<and>
       (length urls < m \<or> \<not> (\<exists>u \<in> set urls. sublist url u)))"
  then show "fst (switch_to_window url t m e s) = Inr False"
    by (auto simp: switch_to_window_def Let_def scan_windows_fst)
qed

text \<open>
  Claim C10 fails on the code for the first primitive of its list. A page load that times out
  inside \<^verbatim>\<open>driver.get\<close> raises \<^verbatim>\<open>TimeoutException\<close> before any \<^verbatim>\<open>try\<close> block is entered, and
  \<^verbatim>\<open>fetch_page\<close> raises it instead of returning \<^verbatim>\<open>False\<close>.
\<close>

theorem fetch_page_raises_timeout:
  "map_option fst (fetch_page monitoring_url TIMEOUT env_slow_page s_init) =
     Some (Inl TimeoutException)"
  by (simp add: fetch_page_def Let_def env_slow_page_def s_init_def)

section \<open>The screenshot of file_download and the detector\<close>

lemma click_element_written:
  assumes "click_element x t e s = Some y"
  shows "written (snd y) = written s"
proof (cases "clickables e (n_click s)")
  case (Inl ex)
  with assms show ?thesis
    by (auto simp: click_element_def Let_def emit_def split: if_splits)
next
  case (Inr el)
  with assms have "wait_for_page_load 0 TIMEOUT e
      (emit (Click x el) (emit (WaitClickable x t) (s\<lparr>n_click := n_click s + 1\<rparr>))) = Some y"
    by (simp add: click_element_def Let_def)
  from wait_for_page_load_inv [OF this] show ?thesis
    by (simp add: emit_def)
qed

lemma poll_new_file_first:
  assumes "clock s < end_time"
    and "downloaded_files initial_files (listing e s (clock s)) \<noteq> []"
  shows "poll_new_file e initial_files end_time s = (True, emit Glob s)"
  using assms by (simp add: poll_new_file.simps [of e initial_files end_time s] glob_def)

lemma suffix_last: "suffix xs ys \<Longrightarrow> xs \<noteq> [] \<Longrightarrow> last ys = last xs"
  by (auto simp: suffix_def)

lemma is_tmp_png: "\<not> is_tmp (p @ ''.png'')"
proof -
  have low: "lower (p @ ''.png'') = lower p @ ''.png''"
    by (simp add: lower_def lower_char_def)
  have "\<not> suffix ''.crdownload'' (lower p @ ''.png'')" "\<not> suffix ''.tmp'' (lower p @ ''.png'')"
    by (auto dest: suffix_last)
  with low show ?thesis
    by (simp add: is_tmp_def endswith_def)
qed

text \<open>
  Claim C3, as the code has it. When the screenshot is saved, the click succeeds and returns
  in state \<open>s2\<close> before the deadline, and no file of the screenshot's name was in the
  snapshot, \<^verbatim>\<open>file_download\<close> returns true at its first poll: the final state is \<open>s2\<close>
  with one more \<open>Glob\<close> and no \<^verbatim>\<open>time.sleep(10)\<close>. Nothing is assumed about \<open>downloads\<close>, so
  this holds even if no download artifact ever appears.
\<close>

theorem screenshot_satisfies_detector:
  assumes shot: "shots e (n_shot s)"
    and click: "click_element (get_xpath kw) TIMEOUT e (snd (get_screenshot e (snd (glob e s)))) =
                  Some (Inr True, s2)"
    and deadline: "clock s2 < clock s + get_timeout kw"
    and fresh: "download_dir e @ ''/'' @ stamp e (clock s) @ ''.png'' \<notin> set (listing e s (clock s))"
  shows "file_download kw e s = Some (Inr True, emit Glob s2)"
proof -
  let ?png = "download_dir e @ ''/'' @ stamp e (clock s) @ ''.png''"
  have "written (snd (get_screenshot e (snd (glob e s)))) = written s @ [?png]"
    using shot by (simp add: get_screenshot_def glob_def emit_def Let_def)
  with click_element_written [OF click] have "?png \<in> set (listing e s2 (clock s2))"
    by (simp add: listing_def)
  moreover have "\<not> is_tmp ?png"
    using is_tmp_png [of "download_dir e @ ''/'' @ stamp e (clock s)"] by simp
  ultimately have "downloaded_files (listing e s (clock s)) (listing e s2 (clock s2)) \<noteq> []"
    using fresh by (auto simp: downloaded_files_nonempty)
  with deadline have "poll_new_file e (listing e s (clock s)) (clock s + get_timeout kw) s2 =
      (True, emit Glob s2)"
    by (intro poll_new_file_first)
  moreover from click have "file_download_body kw e (snd (glob e s)) = Some (Inr True, s2)"
    by (simp add: file_download_body_def)
  ultimately show ?thesis
    using check_new_file_clicked [of file_download_body kw e s s2]
    by (simp add: file_download_def fst_glob)
qed

theorem screenshot_satisfies_detector_witness:
  "map_option fst (file_download kw_minute env_quiet s_init) = Some (Inr True) \<and>
   map_option (trace \<circ> snd) (file_download kw_minute env_quiet s_init) =
     Some [Glob, Screenshot ''/dl/2025-01-01_000000.png'', WaitClickable [] 30, Click [] 1,
           Sleep 3, WaitReady 30, Glob]"
proof -
  let ?click = "click_element (get_xpath kw_minute) TIMEOUT env_quiet
      (snd (get_screenshot env_quiet (snd (glob env_quiet s_init))))"
  have "map_option fst ?click = Some (Inr True)"
    and c: "map_option (clock \<circ> snd) ?click = Some 3"
    and tr: "map_option (trace \<circ> snd) ?click =
       Some [Glob, Screenshot ''/dl/2025-01-01_000000.png'', WaitClickable [] 30, Click [] 1,
           Sleep 3, WaitReady 30]"
    by code_simp+
  then obtain s2 where click: "?click = Some (Inr True, s2)"
    by (cases ?click) auto
  have "shots env_quiet (n_shot s_init)"
    by (simp add: env_quiet_def)
  moreover from c click have "clock s2 < clock s_init + get_timeout kw_minute"
    by (simp add: s_init_def kw_minute_def get_timeout_def)
  moreover have "download_dir env_quiet @ ''/'' @ stamp env_quiet (clock s_init) @ ''.png''
      \<notin> set (listing env_quiet s_init (clock s_init))"
    by (simp add: env_quiet_def s_init_def listing_def)
  ultimately have "file_download kw_minute env_quiet s_init = Some (Inr True, emit Glob s2)"
    using screenshot_satisfies_detector [OF _ click] by blast
  with tr click show ?thesis
    by (simp add: emit_def)
qed

text \<open>
  Claim C3 as stated, without the two extra conditions, fails. With a timeout of 3 the three time
  units slept in \<^verbatim>\<open>_yes_to_alert\<close> use up the deadline, and the loop is never entered; with
  a file of the screenshot's name already in the directory the screenshot is not new.
\<close>

theorem screenshot_not_always_enough:
  "shots env_quiet (n_shot s_init) \<and>
   map_option fst (click_element (get_xpath kw_short) TIMEOUT env_quiet
      (snd (get_screenshot env_quiet (snd (glob env_quiet s_init))))) = Some (Inr True) \<and>
   map_option fst (file_download kw_short env_quiet s_init) = Some (Inr False) \<and>
   shots env_same_name (n_shot s_init) \<and>
   map_option fst (click_element (get_xpath kw_minute) TIMEOUT env_same_name
      (snd (get_screenshot env_same_name (snd (glob env_same_name s_init))))) = Some (Inr True) \<and>
   map_option fst (file_download kw_minute env_same_name s_init) = Some (Inr False)"
  by code_simp

section \<open>The remote job orchestrator: polling for the row and for readiness\<close>

lemma monitoring_poll_absent_step:
  assumes "retries < max_retries"
    and "visibles e (n_visible s) = Inl TimeoutException"
    and "refreshes e (n_refresh s) = None"
  shows "monitoring_poll xp e retries db s =
     monitoring_poll xp e (Suc retries) (Bound None)
       (s\<lparr>n_visible := Suc (n_visible s), n_refresh := Suc (n_refresh s),
          trace := trace s @ [Probe xp 5, Refresh]\<rparr>)"
  apply (subst monitoring_poll.simps)
  using assms
  apply (simp add: find_element_def refresh_def emit_def Let_def max_retries_def)
  done

lemma monitoring_poll_absent:
  assumes "retries + k \<le> max_retries"
    and "\<forall>i<k. visibles e (n_visible s + i) = Inl TimeoutException"
    and "\<forall>i<k. refreshes e (n_refresh s + i) = None"
  shows "monitoring_poll xp e retries db s =
     monitoring_poll xp e (retries + k) (if k = 0 then db else Bound None)
       (s\<lparr>n_visible := n_visible s + k, n_refresh := n_refresh s + k,
          trace := trace s @ concat (replicate k [Probe xp 5, Refresh])\<rparr>)"
  using assms
proof (induction k arbitrary: retries db s)
  case 0
  then show ?case by simp
next
  case (Suc k)
  let ?s = "s\<lparr>n_visible := Suc (n_visible s), n_refresh := Suc (n_refresh s),
          trace := trace s @ [Probe xp 5, Refresh]\<rparr>"
  from Suc.prems have first: "retries < max_retries"
    "visibles e (n_visible s) = Inl TimeoutException" "refreshes e (n_refresh s) = None"
    using Suc.prems(2) [rule_format, of 0] Suc.prems(3) [rule_format, of 0] by simp_all
  have "visibles e (n_visible ?s + i) = Inl TimeoutException"
    "refreshes e (n_refresh ?s + i) = None" if "i < k" for i
    using Suc.prems(2) [rule_format, of "Suc i"] Suc.prems(3) [rule_format, of "Suc i"] that
    by simp_all
  with Suc.prems(1) have "monitoring_poll xp e (Suc retries) (Bound None) ?s =
     monitoring_poll xp e (Suc retries + k) (if k = 0 then Bound None else Bound None)
       (?s\<lparr>n_visible := n_visible ?s + k, n_refresh := n_refresh ?s + k,
          trace := trace ?s @ concat (replicate k [Probe xp 5, Refresh])\<rparr>)"
    by (intro Suc.IH) simp_all
  with monitoring_poll_absent_step [OF first, of xp db] show ?case
    by simp
qed

lemma monitoring_poll_found:
  assumes "retries < max_retries" and "visibles e (n_visible s) = Inr el"
  shows "monitoring_poll xp e retries db s =
     (Exited (Bound (Some el)), s\<lparr>n_visible := Suc (n_visible s), trace := trace s @ [Probe xp 5]\<rparr>)"
  apply (subst monitoring_poll.simps)
  using assms
  apply (simp add: find_element_def emit_def Let_def)
  done

lemma monitoring_poll_over:
  "monitoring_poll xp e max_retries db s = (Exited db, s)"
  by (subst monitoring_poll.simps) simp

text \<open>
  Claim C6. When the first \<open>k < 30\<close> probes for the row's download control time out, the
  refreshes between them succeed and probe \<open>k + 1\<close> finds the control, the poll loop is left
  by \<^verbatim>\<open>break\<close> with that control after exactly \<open>k + 1\<close> probes, one refresh between two
  successive probes, and \<^verbatim>\<open>monitoring_progress\<close> goes on with the readiness check.
\<close>

theorem monitoring_poll_finds_row:
  assumes "k < max_retries"
    and "\<forall>i<k. visibles e (n_visible s + i) = Inl TimeoutException"
    and "visibles e (n_visible s + k) = Inr el"
    and "\<forall>i<k. refreshes e (n_refresh s + i) = None"
  shows "\<exists>s'. monitoring_poll (file_name_td name @ download_xpath) e 0 Unbound s =
            (Exited (Bound (Some el)), s') \<and>
          trace s' = trace s @
            concat (replicate k [Probe (file_name_td name @ download_xpath) 5, Refresh]) @
            [Probe (file_name_td name @ download_xpath) 5] \<and>
          monitoring_row name timeout e s = monitoring_ready name timeout (Bound (Some el)) e s'"
proof -
  let ?xp = "file_name_td name @ download_xpath"
  let ?s = "s\<lparr>n_visible := n_visible s + k, n_refresh := n_refresh s + k,
          trace := trace s @ concat (replicate k [Probe ?xp 5, Refresh])\<rparr>"
  let ?s' = "?s\<lparr>n_visible := Suc (n_visible ?s), trace := trace ?s @ [Probe ?xp 5]\<rparr>"
  from assms have "monitoring_poll ?xp e 0 Unbound s =
      monitoring_poll ?xp e (0 + k) (if k = 0 then Unbound else Bound None) ?s"
    by (intro monitoring_poll_absent) simp_all
  also from assms have "\<dots> = (Exited (Bound (Some el)), ?s')"
    by (intro monitoring_poll_found) simp_all
  finally have run: "monitoring_poll ?xp e 0 Unbound s = (Exited (Bound (Some el)), ?s')" .
  then have "monitoring_row name timeout e s = monitoring_ready name timeout (Bound (Some el)) e ?s'"
    by (simp add: monitoring_row_def)
  with run show ?thesis
    by (intro exI [of _ ?s']) simp
qed

lemma monitoring_row_exhausted:
  assumes "\<forall>i<max_retries. visibles e (n_visible s + i) = Inl TimeoutException"
    and "\<forall>i<max_retries. refreshes e (n_refresh s + i) = None"
  shows "map_option fst (monitoring_row name timeout e s) = Some (Inl AttributeError)"
proof -
  let ?xp = "file_name_td name @ download_xpath"
  let ?s = "s\<lparr>n_visible := n_visible s + max_retries, n_refresh := n_refresh s + max_retries,
          trace := trace s @ concat (replicate max_retries [Probe ?xp 5, Refresh])\<rparr>"
  from assms have "monitoring_poll ?xp e 0 Unbound s =
      monitoring_poll ?xp e (0 + max_retries) (if max_retries = 0 then Unbound else Bound None) ?s"
    by (intro monitoring_poll_absent) simp_all
  then have "monitoring_poll ?xp e 0 Unbound s = (Exited (Bound None), ?s)"
    by (simp add: monitoring_poll_over) (simp add: max_retries_def)
  then show ?thesis
    by (simp add: monitoring_row_def monitoring_ready_def monitoring_enabled.simps [of _ _ "Bound None"])
qed

theorem monitoring_poll_finds_row_witness:
  "\<exists>s'. monitoring_poll (file_name_td ''chunk_0.xlsx'' @ download_xpath) env_row_third 0 Unbound s_init =
            (Exited (Bound (Some 1)), s') \<and>
     trace s' = [Probe (file_name_td ''chunk_0.xlsx'' @ download_xpath) 5, Refresh,
                 Probe (file_name_td ''chunk_0.xlsx'' @ download_xpath) 5, Refresh,
                 Probe (file_name_td ''chunk_0.xlsx'' @ download_xpath) 5] \<and>
     monitoring_row ''chunk_0.xlsx'' 3600 env_row_third s_init =
       monitoring_ready ''chunk_0.xlsx'' 3600 (Bound (Some 1)) env_row_third s'"
proof -
  have "(2::nat) < max_retries"
    "\<forall>i<2. visibles env_row_third (n_visible s_init + i) = Inl TimeoutException"
    "visibles env_row_third (n_visible s_init + 2) = Inr 1"
    "\<forall>i<2. refreshes env_row_third (n_refresh s_init + i) = None"
    by (simp_all add: max_retries_def env_row_third_def env_quiet_def s_init_def)
  from monitoring_poll_finds_row [OF this, of "''chunk_0.xlsx''" 3600] show ?thesis
    by (simp add: s_init_def numeral_2_eq_2)
qed

lemma popup_found: "fst (switch_to_window ''geocodingMonitoring'' 30 2 env_never s_init) = Inr True"
  "fst (switch_to_window ''geocodingMonitoring'' 30 2 env_no_file s_init) = Inr True"
  by code_simp+

text \<open>
  Claim C2 fails on the code. Thirty probes that all time out leave the loop by its
  condition \<^verbatim>\<open>retries < max_retries\<close> with \<^verbatim>\<open>download_button = False\<close>: the guarded
  \<^verbatim>\<open>return False\<close> asks for \<^verbatim>\<open>retries > max_retries\<close>, which the loop condition excludes on
  this path. The readiness check then calls \<^verbatim>\<open>get_attribute\<close> on \<^verbatim>\<open>False\<close> and raises
  \<^verbatim>\<open>AttributeError\<close>.
\<close>

theorem monitoring_progress_row_never_appears:
  "map_option fst (monitoring_progress ''chunk_0.xlsx'' 3600 env_never s_init) =
     Some (Inl AttributeError)"
proof -
  obtain s1 where "switch_to_window ''geocodingMonitoring'' 30 2 env_never s_init = (Inr True, s1)"
    using popup_found(1) by (cases "switch_to_window ''geocodingMonitoring'' 30 2 env_never s_init") auto
  moreover have "map_option fst (monitoring_row ''chunk_0.xlsx'' 3600 env_never s1) =
      Some (Inl AttributeError)"
    by (intro monitoring_row_exhausted) (simp_all add: env_never_def env_quiet_def)
  ultimately show ?thesis
    by (simp add: monitoring_progress_def)
qed

lemma monitoring_enabled_disabled_step:
  assumes "classes e (n_class s) = Some c" and "sublist ''disabled'' c"
    and "refreshes e (n_refresh s) = None" and "visibles e (n_visible s) = Inr el'"
  shows "monitoring_enabled xp e (Bound (Some el)) s =
     monitoring_enabled xp e (Bound (Some el'))
       (s\<lparr>clock := clock s + 10, n_visible := Suc (n_visible s), n_refresh := Suc (n_refresh s),
          n_class := Suc (n_class s),
          trace := trace s @ [GetAttribute ''class'', Refresh, Sleep 10, Probe xp TIMEOUT]\<rparr>)"
  apply (subst monitoring_enabled.simps)
  using assms
  apply (cases s)
  apply (simp add: get_attribute_def refresh_def find_element_def sleep_def emit_def Let_def)
  done

lemma monitoring_enabled_now:
  assumes "classes e (n_class s) = Some c" and "\<not> sublist ''disabled'' c"
  shows "monitoring_enabled xp e (Bound (Some el)) s =
     Some (Inr (), s\<lparr>n_class := Suc (n_class s), trace := trace s @ [GetAttribute ''class'']\<rparr>)"
  apply (subst monitoring_enabled.simps)
  using assms
  apply (simp add: get_attribute_def emit_def)
  done

lemma monitoring_enabled_after:
  assumes "\<forall>i<m. \<exists>c. classes e (n_class s + i) = Some c \<and> sublist ''disabled'' c"
    and "\<forall>i<m. refreshes e (n_refresh s + i) = None"
    and "\<forall>i<m. \<exists>el'. visibles e (n_visible s + i) = Inr el'"
  shows "\<exists>el'. monitoring_enabled xp e (Bound (Some el)) s =
     monitoring_enabled xp e (Bound (Some el'))
       (s\<lparr>clock := clock s + 10 * int m, n_visible := n_visible s + m,
          n_refresh := n_refresh s + m, n_class := n_class s + m,
          trace := trace s @
            concat (replicate m [GetAttribute ''class'', Refresh, Sleep 10, Probe xp TIMEOUT])\<rparr>)"
  using assms
proof (induction m arbitrary: el s)
  case 0
  show ?case by (intro exI [of _ el]) simp
next
  case (Suc m)
  from Suc.prems(1) [rule_format, of 0] Suc.prems(3) [rule_format, of 0]
  obtain c el1 where first: "classes e (n_class s) = Some c" "sublist ''disabled'' c"
    "visibles e (n_visible s) = Inr el1"
    by auto
  from Suc.prems(2) [rule_format, of 0] have rf: "refreshes e (n_refresh s) = None"
    by simp
  let ?s = "s\<lparr>clock := clock s + 10, n_visible := Suc (n_visible s), n_refresh := Suc (n_refresh s),
          n_class := Suc (n_class s),
          trace := trace s @ [GetAttribute ''class'', Refresh, Sleep 10, Probe xp TIMEOUT]\<rparr>"
  have "\<exists>c. classes e (n_class ?s + i) = Some c \<and> sublist ''disabled'' c"
    "refreshes e (n_refresh ?s + i) = None"
    "\<exists>el'. visibles e (n_visible ?s + i) = Inr el'" if "i < m" for i
    using Suc.prems(1) [rule_format, of "Suc i"] Suc.prems(2) [rule_format, of "Suc i"]
      Suc.prems(3) [rule_format, of "Suc i"] that
    by simp_all
  then obtain el' where "monitoring_enabled xp e (Bound (Some el1)) ?s =
     monitoring_enabled xp e (Bound (Some el'))
       (?s\<lparr>clock := clock ?s + 10 * int m, n_visible := n_visible ?s + m,
          n_refresh := n_refresh ?s + m, n_class := n_class ?s + m,
          trace := trace ?s @
            concat (replicate m [GetAttribute ''class'', Refresh, Sleep 10, Probe xp TIMEOUT])\<rparr>)"
    using Suc.IH [of ?s el1] by blast
  with monitoring_enabled_disabled_step [OF first(1,2) rf first(3), of xp el]
  show ?case
    by (intro exI [of _ el']) (cases s, simp add: algebra_simps)
qed

text \<open>
  What a call of the download step leaves in the trace: the snapshot, the screenshot, one
  wait for the download control to be clickable, and after it no second such wait (the load
  wait, the polls and the click on the clear-history control follow).
\<close>

lemma click_element_ok:
  assumes "clickables e (n_click s) = Inr el"
    and "alerts e (n_alert s) = Some NoAlertPresentException"
    and "readys e (n_ready s) = None"
    and "0 < stack_room e"
  shows "\<exists>s2. click_element x t e s = Some (Inr True, s2) \<and>
     trace s2 = trace s @ [WaitClickable x t, Click x el, Sleep 3, WaitReady TIMEOUT]"
proof -
  let ?s = "emit (Click x el) (emit (WaitClickable x t) (s\<lparr>n_click := n_click s + 1\<rparr>))"
  let ?s1 = "(sleep 3 ?s)\<lparr>n_alert := n_alert ?s + 1\<rparr>"
  from assms(2) have "alerts e (n_alert ?s) = Some NoAlertPresentException"
    by (simp add: emit_def)
  from yes_to_alert_raised [OF this] have "yes_to_alert e ?s = Some (Inr (), ?s1)"
    by simp
  from wait_for_page_load_unfold [OF assms(4) this, of TIMEOUT] assms(3)
  have "wait_for_page_load 0 TIMEOUT e ?s = Some (Inr True, snd (wait_ready TIMEOUT e ?s1))"
    by (simp add: wait_ready_def Let_def sleep_def emit_def)
  with assms(1) have "click_element x t e s = Some (Inr True, snd (wait_ready TIMEOUT e ?s1))"
    by (simp add: click_element_def Let_def)
  moreover have "trace (snd (wait_ready TIMEOUT e ?s1)) =
      trace s @ [WaitClickable x t, Click x el, Sleep 3, WaitReady TIMEOUT]"
    by (simp add: wait_ready_inv sleep_def emit_def)
  ultimately show ?thesis by blast
qed

lemma click_element_trace:
  assumes "click_element x t e s = Some y"
  shows "\<exists>rest. trace (snd y) = trace s @ WaitClickable x t # rest \<and>
           (\<forall>x' t'. WaitClickable x' t' \<notin> set rest)"
proof (cases "clickables e (n_click s)")
  case (Inl ex)
  with assms have "trace (snd y) = trace s @ [WaitClickable x t]"
    by (auto simp: click_element_def Let_def emit_def split: if_splits)
  then show ?thesis by simp
next
  case (Inr el)
  let ?s = "emit (Click x el) (emit (WaitClickable x t) (s\<lparr>n_click := n_click s + 1\<rparr>))"
  from Inr assms have "wait_for_page_load 0 TIMEOUT e ?s = Some y"
    by (simp add: click_element_def Let_def)
  from wait_for_page_load_inv [OF this] obtain rest where "trace (snd y) = trace ?s @ rest"
    and "set rest \<subseteq> {Sleep 3, Dismiss, WaitReady TIMEOUT}"
    by blast
  then show ?thesis
    by (intro exI [of _ "Click x el # rest"]) (auto simp: emit_def)
qed

lemma poll_new_file_trace:
  "\<exists>rest. trace (snd (poll_new_file e initial_files end_time s)) = trace s @ rest \<and>
           set rest \<subseteq> {Glob, Sleep 10}"
proof (induction e initial_files end_time s rule: poll_new_file.induct)
  case (1 e initial_files end_time s)
  show ?case
  proof (cases "clock s < end_time")
    case False
    then show ?thesis
      by (simp add: poll_new_file.simps [of e initial_files end_time s])
  next
    case True
    show ?thesis
    proof (cases "downloaded_files initial_files (fst (glob e s)) \<noteq> []")
      case found: True
      with True have "trace (snd (poll_new_file e initial_files end_time s)) = trace s @ [Glob]"
        by (simp add: poll_new_file.simps [of e initial_files end_time s] glob_def emit_def)
      then show ?thesis by simp
    next
      case False
      let ?s = "sleep 10 (snd (glob e s))"
      from True False "1.IH" obtain rest where
        "trace (snd (poll_new_file e initial_files end_time ?s)) = trace ?s @ rest"
        and "set rest \<subseteq> {Glob, Sleep 10}"
        by blast
      with True False show ?thesis
        by (intro exI [of _ "[Glob, Sleep 10] @ rest"])
           (simp add: poll_new_file.simps [of e initial_files end_time s] glob_def sleep_def emit_def)
    qed
  qed
qed

lemma file_download_trace:
  assumes "file_download kw e s = Some y"
  shows "\<exists>p rest. trace (snd y) =
             trace s @ Glob # Screenshot p # WaitClickable (get_xpath kw) TIMEOUT # rest \<and>
           (\<forall>x' t'. WaitClickable x' t' \<notin> set rest)"
proof -
  let ?s1 = "snd (get_screenshot e (snd (glob e s)))"
  obtain p where s1: "trace ?s1 = trace s @ [Glob, Screenshot p]"
    by (simp add: get_screenshot_def glob_def emit_def Let_def)
  from assms obtain r2 s2 where click: "click_element (get_xpath kw) TIMEOUT e ?s1 = Some (r2, s2)"
    by (cases "click_element (get_xpath kw) TIMEOUT e ?s1")
       (auto simp: file_download_def check_new_file_def file_download_body_def Let_def)
  from click_element_trace [OF click] s1 obtain rest2 where
    s2: "trace s2 = trace s @ Glob # Screenshot p # WaitClickable (get_xpath kw) TIMEOUT # rest2"
    and no2: "\<forall>x' t'. WaitClickable x' t' \<notin> set rest2"
    by auto
  show ?thesis
  proof (cases "r2 = Inr True")
    case False
    with assms click have "snd y = s2"
      by (cases r2) (auto simp: file_download_def check_new_file_def file_download_body_def Let_def)
    with s2 no2 show ?thesis by blast
  next
    case True
    let ?poll = "poll_new_file e (fst (glob e s)) (clock (snd (glob e s)) + get_timeout kw) s2"
    from True assms click have "snd y = snd ?poll"
      by (auto simp: file_download_def check_new_file_def file_download_body_def Let_def)
    moreover from poll_new_file_trace [of e "fst (glob e s)" _ s2] obtain rest3 where
      "trace (snd ?poll) = trace s2 @ rest3" and "set rest3 \<subseteq> {Glob, Sleep 10}"
      by blast
    ultimately show ?thesis
      using s2 no2 by (intro exI [of _ p] exI [of _ "rest2 @ rest3"]) auto
  qed
qed

lemma download_is_not_delete: "file_name_td name @ download_xpath \<noteq> file_name_td name @ delete_xpath"
  by (simp add: download_xpath_def delete_xpath_def)

lemma monitoring_download_trace:
  assumes "monitoring_download name timeout e s = Some y"
  shows "\<exists>p rest. trace (snd y) =
             trace s @ Glob # Screenshot p #
               WaitClickable (file_name_td name @ download_xpath) TIMEOUT # rest \<and>
           WaitClickable (file_name_td name @ download_xpath) TIMEOUT \<notin> set rest"
proof -
  let ?kw = "\<lparr>kw_xpath = Some (file_name_td name @ download_xpath), kw_timeout = Some timeout\<rparr>"
  let ?dl = "file_name_td name @ download_xpath"
  from assms obtain r1 s1 where f: "file_download ?kw e s = Some (r1, s1)"
    by (cases "file_download ?kw e s") (auto simp: monitoring_download_def)
  from file_download_trace [OF f] obtain p rest1 where
    s1: "trace s1 = trace s @ Glob # Screenshot p # WaitClickable ?dl TIMEOUT # rest1"
    and no1: "\<forall>x' t'. WaitClickable x' t' \<notin> set rest1"
    by (auto simp: get_xpath_def)
  show ?thesis
  proof (cases r1)
    case (Inl x)
    with assms f have "snd y = s1"
      by (auto simp: monitoring_download_def)
    with s1 no1 show ?thesis by blast
  next
    case (Inr b)
    with assms f obtain y2 where c: "click_element (file_name_td name @ delete_xpath) TIMEOUT e s1 = Some y2"
      and "snd y = snd y2"
      by (cases "click_element (file_name_td name @ delete_xpath) TIMEOUT e s1")
         (auto simp: monitoring_download_def split: sum.splits)
    moreover from click_element_trace [OF c] obtain rest2 where
      "trace (snd y2) = trace s1 @ WaitClickable (file_name_td name @ delete_xpath) TIMEOUT # rest2"
      and "\<forall>x' t'. WaitClickable x' t' \<notin> set rest2"
      by blast
    ultimately show ?thesis
      using s1 no1 download_is_not_delete [of name]
      by (intro exI [of _ p]
            exI [of _ "rest1 @ WaitClickable (file_name_td name @ delete_xpath) TIMEOUT # rest2"])
         auto
  qed
qed

lemma monitoring_download_returns:
  assumes "\<And>k. \<exists>el. clickables e k = Inr el"
    and "\<And>k. alerts e k = Some NoAlertPresentException"
    and "\<And>k. readys e k = None"
    and "0 < stack_room e"
  shows "\<exists>s2. monitoring_download name timeout e s = Some (Inr True, s2)"
proof -
  have click: "\<exists>s2. click_element x t e s = Some (Inr True, s2)" for x t s
  proof -
    from assms(1) obtain el where "clickables e (n_click s) = Inr el" by blast
    from click_element_ok [OF this assms(2) assms(3) assms(4)] show ?thesis by blast
  qed
  let ?kw = "\<lparr>kw_xpath = Some (file_name_td name @ download_xpath), kw_timeout = Some timeout\<rparr>"
  from click obtain s1 where
    "click_element (get_xpath ?kw) TIMEOUT e (snd (get_screenshot e (snd (glob e s)))) = Some (Inr True, s1)"
    by blast
  then have "file_download_body ?kw e (snd (glob e s)) = Some (Inr True, s1)"
    by (simp add: file_download_body_def)
  from check_new_file_clicked [of file_download_body ?kw e s s1, OF this]
  obtain b s2 where "file_download ?kw e s = Some (Inr b, s2)"
    by (simp add: file_download_def)
  moreover from click obtain s3 where
    "click_element (file_name_td name @ delete_xpath) TIMEOUT e s2 = Some (Inr True, s3)"
    by blast
  ultimately show ?thesis
    by (simp add: monitoring_download_def)
qed

text \<open>
  Claim C7. When the control's class contains \<^verbatim>\<open>disabled\<close> at the first \<open>m\<close> observations
  and not at the next one, and the refreshes and the relocations in between succeed, the
  readiness loop makes exactly \<open>m\<close> rounds of refresh, \<^verbatim>\<open>time.sleep(10)\<close> and relocation, for any
  \<open>m\<close>, and then the download step runs on the state the loop left. Every run that returns,
  with a value or with an exception, shows the download attempted exactly once: after the
  loop's events the trace goes on with the snapshot, the screenshot and the wait for the
  download control, and holds no second wait for that control.
\<close>

theorem monitoring_ready_waits:
  assumes "\<forall>i<m. \<exists>c. classes e (n_class s + i) = Some c \<and> sublist ''disabled'' c"
    and "classes e (n_class s + m) = Some c" and "\<not> sublist ''disabled'' c"
    and "\<forall>i<m. refreshes e (n_refresh s + i) = None"
    and "\<forall>i<m. \<exists>el'. visibles e (n_visible s + i) = Inr el'"
  shows "\<exists>s'. monitoring_enabled (file_name_td name @ download_xpath) e (Bound (Some el)) s =
            Some (Inr (), s') \<and>
          trace s' = trace s @
            concat (replicate m [GetAttribute ''class'', Refresh, Sleep 10,
                                 Probe (file_name_td name @ download_xpath) TIMEOUT]) @
            [GetAttribute ''class''] \<and>
          monitoring_ready name timeout (Bound (Some el)) e s = monitoring_download name timeout e s' \<and>
          (\<forall>y. monitoring_ready name timeout (Bound (Some el)) e s = Some y \<longrightarrow>
             (\<exists>p rest. trace (snd y) =
                 trace s' @ Glob # Screenshot p #
                   WaitClickable (file_name_td name @ download_xpath) TIMEOUT # rest \<and>
               WaitClickable (file_name_td name @ download_xpath) TIMEOUT \<notin> set rest))"
proof -
  let ?xp = "file_name_td name @ download_xpath"
  let ?s = "s\<lparr>clock := clock s + 10 * int m, n_visible := n_visible s + m,
          n_refresh := n_refresh s + m, n_class := n_class s + m,
          trace := trace s @
            concat (replicate m [GetAttribute ''class'', Refresh, Sleep 10, Probe ?xp TIMEOUT])\<rparr>"
  let ?s' = "?s\<lparr>n_class := Suc (n_class ?s), trace := trace ?s @ [GetAttribute ''class'']\<rparr>"
  from monitoring_enabled_after [OF assms(1,4,5), of ?xp el]
  obtain el' where "monitoring_enabled ?xp e (Bound (Some el)) s =
      monitoring_enabled ?xp e (Bound (Some el')) ?s"
    by blast
  also from assms(2,3) have "\<dots> = Some (Inr (), ?s')"
    by (intro monitoring_enabled_now [of e ?s c]) simp_all
  finally have run: "monitoring_enabled ?xp e (Bound (Some el)) s = Some (Inr (), ?s')" .
  then have eq: "monitoring_ready name timeout (Bound (Some el)) e s =
      monitoring_download name timeout e ?s'"
    by (simp add: monitoring_ready_def)
  have "\<exists>p rest. trace (snd y) = trace ?s' @ Glob # Screenshot p # WaitClickable ?xp TIMEOUT # rest \<and>
          WaitClickable ?xp TIMEOUT \<notin> set rest"
    if "monitoring_ready name timeout (Bound (Some el)) e s = Some y" for y
    using that eq monitoring_download_trace [of name timeout e ?s' y] by simp
  with run eq show ?thesis
    by (intro exI [of _ ?s']) simp
qed

lemma disabled_examples: "sublist ''disabled'' ''btn disabled''" "\<not> sublist ''disabled'' ''btn''"
  by code_simp+

theorem monitoring_ready_waits_witness:
  "\<exists>s' y. monitoring_enabled (file_name_td ''chunk_0.xlsx'' @ download_xpath) env_two_refreshes
            (Bound (Some 1)) s_init = Some (Inr (), s') \<and>
     trace s' =
       [GetAttribute ''class'', Refresh, Sleep 10,
        Probe (file_name_td ''chunk_0.xlsx'' @ download_xpath) TIMEOUT,
        GetAttribute ''class'', Refresh, Sleep 10,
        Probe (file_name_td ''chunk_0.xlsx'' @ download_xpath) TIMEOUT,
        GetAttribute ''class''] \<and>
     monitoring_ready ''chunk_0.xlsx'' 3600 (Bound (Some 1)) env_two_refreshes s_init =
       monitoring_download ''chunk_0.xlsx'' 3600 env_two_refreshes s' \<and>
     monitoring_ready ''chunk_0.xlsx'' 3600 (Bound (Some 1)) env_two_refreshes s_init = Some y \<and>
     fst y = Inr True \<and>
     (\<exists>p rest. trace (snd y) =
         trace s' @ Glob # Screenshot p #
           WaitClickable (file_name_td ''chunk_0.xlsx'' @ download_xpath) TIMEOUT # rest \<and>
       WaitClickable (file_name_td ''chunk_0.xlsx'' @ download_xpath) TIMEOUT \<notin> set rest)"
proof -
  let ?e = env_two_refreshes
  let ?dl = "file_name_td ''chunk_0.xlsx'' @ download_xpath"
  have "\<forall>i<2. \<exists>c. classes ?e (n_class s_init + i) = Some c \<and> sublist ''disabled'' c"
    "classes ?e (n_class s_init + 2) = Some ''btn''"
    "\<not> sublist ''disabled'' ''btn''"
    "\<forall>i<2. refreshes ?e (n_refresh s_init + i) = None"
    "\<forall>i<2. \<exists>el'. visibles ?e (n_visible s_init + i) = Inr el'"
    by (simp_all add: env_two_refreshes_def env_quiet_def s_init_def disabled_examples)
  from monitoring_ready_waits [OF this, of "''chunk_0.xlsx''" 1 3600]
  obtain s' where loop: "monitoring_enabled ?dl ?e (Bound (Some 1)) s_init = Some (Inr (), s')"
    and tr: "trace s' = trace s_init @
        concat (replicate 2 [GetAttribute ''class'', Refresh, Sleep 10, Probe ?dl TIMEOUT]) @
        [GetAttribute ''class'']"
    and eq: "monitoring_ready ''chunk_0.xlsx'' 3600 (Bound (Some 1)) ?e s_init =
        monitoring_download ''chunk_0.xlsx'' 3600 ?e s'"
    and once: "\<And>y. monitoring_ready ''chunk_0.xlsx'' 3600 (Bound (Some 1)) ?e s_init = Some y \<Longrightarrow>
        \<exists>p rest. trace (snd y) = trace s' @ Glob # Screenshot p # WaitClickable ?dl TIMEOUT # rest \<and>
          WaitClickable ?dl TIMEOUT \<notin> set rest"
    by blast
  have "\<exists>el. clickables ?e k = Inr el" "alerts ?e k = Some NoAlertPresentException"
    "readys ?e k = None" "0 < stack_room ?e" for k
    by (simp_all add: env_two_refreshes_def env_quiet_def)
  from monitoring_download_returns [of ?e, OF this, of "''chunk_0.xlsx''" 3600 s'] eq
  obtain s2 where run: "monitoring_ready ''chunk_0.xlsx'' 3600 (Bound (Some 1)) ?e s_init =
      Some (Inr True, s2)"
    by auto
  from once [OF run] loop tr eq run show ?thesis
    by (intro exI [of _ s'] exI [of _ "(Inr True, s2)"]) (simp add: s_init_def numeral_2_eq_2)
qed

section \<open>The remote job orchestrator: the download step\<close>

lemma file_download_no_file:
  "\<exists>s1. file_download kw env_no_file s = Some (Inr False, s1)"
proof -
  let ?e = env_no_file
  let ?s = "snd (get_screenshot ?e (snd (glob ?e s)))"
  have w: "written ?s = written s"
    by (simp add: get_screenshot_def glob_def emit_def Let_def env_no_file_def)
  have "clickables ?e (n_click ?s) = Inr 1" "alerts ?e (n_alert ?s) = Some NoAlertPresentException"
    "readys ?e (n_ready ?s) = None" "0 < stack_room ?e"
    by (simp_all add: env_no_file_def env_quiet_def)
  from click_element_ok [OF this, of "get_xpath kw" TIMEOUT]
  obtain s2 where click: "click_element (get_xpath kw) TIMEOUT ?e ?s = Some (Inr True, s2)"
    by blast
  from click_element_written [OF click] w have "written s2 = written s"
    by simp
  then have same: "listing ?e s2 t = listing ?e s (clock s)" for t
    by (simp add: listing_def env_no_file_def env_quiet_def)
  from click have "file_download_body kw ?e (snd (glob ?e s)) = Some (Inr True, s2)"
    by (simp add: file_download_body_def)
  from check_new_file_clicked [of file_download_body kw ?e s s2, OF this] show ?thesis
    by (simp add: file_download_def poll_new_file_fst downloaded_files_nonempty fst_glob same)
qed

text \<open>
  Claim C1 fails on the code. The end-to-end failure of the specification: the row is
  there, the control is enabled, the click succeeds, no file appears within 5 time units
  (the screenshot is not saved). \<^verbatim>\<open>file_download\<close> returns \<^verbatim>\<open>False\<close>;
  \<^verbatim>\<open>monitoring_progress\<close> drops that result, clicks the clear-history control and returns
  \<^verbatim>\<open>True\<close>.
\<close>

theorem monitoring_download_clears_after_failure:
  "map_option fst (file_download kw_chunk env_no_file s_init) = Some (Inr False) \<and>
   map_option fst (monitoring_download ''chunk_0.xlsx'' 5 env_no_file s_init) = Some (Inr True) \<and>
   map_option (\<lambda>y. Click (file_name_td ''chunk_0.xlsx'' @ delete_xpath) 1 \<in> set (trace (snd y)))
     (monitoring_download ''chunk_0.xlsx'' 5 env_no_file s_init) = Some True \<and>
   map_option fst (monitoring_progress ''chunk_0.xlsx'' 5 env_no_file s_init) = Some (Inr True)"
proof -
  let ?e = env_no_file
  have down: "\<exists>s2. monitoring_download ''chunk_0.xlsx'' 5 ?e s = Some (Inr True, s2) \<and>
      Click (file_name_td ''chunk_0.xlsx'' @ delete_xpath) 1 \<in> set (trace s2)" for s
  proof -
    from file_download_no_file [of kw_chunk s]
    obtain s1 where f: "file_download kw_chunk ?e s = Some (Inr False, s1)"
      by blast
    have "clickables ?e (n_click s1) = Inr 1" "alerts ?e (n_alert s1) = Some NoAlertPresentException"
      "readys ?e (n_ready s1) = None" "0 < stack_room ?e"
      by (simp_all add: env_no_file_def env_quiet_def)
    from click_element_ok [OF this, of "file_name_td ''chunk_0.xlsx'' @ delete_xpath" TIMEOUT]
    obtain s2 where "click_element (file_name_td ''chunk_0.xlsx'' @ delete_xpath) TIMEOUT ?e s1 =
        Some (Inr True, s2)"
      and "Click (file_name_td ''chunk_0.xlsx'' @ delete_xpath) 1 \<in> set (trace s2)"
      by auto
    with f show ?thesis
      by (simp add: monitoring_download_def kw_chunk_def)
  qed
  from file_download_no_file [of kw_chunk s_init]
  have 1: "map_option fst (file_download kw_chunk ?e s_init) = Some (Inr False)"
    by auto
  from down [of s_init]
  have 2: "map_option fst (monitoring_download ''chunk_0.xlsx'' 5 ?e s_init) = Some (Inr True)"
    and 3: "map_option (\<lambda>y. Click (file_name_td ''chunk_0.xlsx'' @ delete_xpath) 1 \<in> set (trace (snd y)))
     (monitoring_download ''chunk_0.xlsx'' 5 ?e s_init) = Some True"
    by auto
  obtain s1 where popup: "switch_to_window ''geocodingMonitoring'' 30 2 ?e s_init = (Inr True, s1)"
    using popup_found(2) by (cases "switch_to_window ''geocodingMonitoring'' 30 2 ?e s_init") auto
  let ?xp = "file_name_td ''chunk_0.xlsx'' @ download_xpath"
  let ?s2 = "s1\<lparr>n_visible := Suc (n_visible s1), trace := trace s1 @ [Probe ?xp 5]\<rparr>"
  let ?s3 = "?s2\<lparr>n_class := Suc (n_class ?s2), trace := trace ?s2 @ [GetAttribute ''class'']\<rparr>"
  have "monitoring_poll ?xp ?e 0 Unbound s1 = (Exited (Bound (Some 1)), ?s2)"
    by (intro monitoring_poll_found) (simp_all add: max_retries_def env_no_file_def env_quiet_def)
  moreover have "monitoring_enabled ?xp ?e (Bound (Some 1)) ?s2 = Some (Inr (), ?s3)"
    by (intro monitoring_enabled_now [of _ _ "''btn''"])
       (simp_all add: env_no_file_def env_quiet_def disabled_examples)
  ultimately have "monitoring_row ''chunk_0.xlsx'' 5 ?e s1 = monitoring_download ''chunk_0.xlsx'' 5 ?e ?s3"
    by (simp add: monitoring_row_def monitoring_ready_def)
  with down [of ?s3] popup
  have 4: "map_option fst (monitoring_progress ''chunk_0.xlsx'' 5 ?e s_init) = Some (Inr True)"
    by (auto simp: monitoring_progress_def)
  from 1 2 3 4 show ?thesis by blast
qed

end
